theory Spec2Isabelle
  imports Main
begin

section \<open>Drawing lock notifier: the WebSocket client\<close>

text \<open>
  The client class \<open>WebSocketClient\<close> keeps two private fields: the transport handle
  \<open>socket\<close> (null until \<open>connect\<close> is called) and the registry \<open>subscriptions\<close>, a map from
  drawing id to the array of handlers subscribed to that id. Everything else the class
  does is a call on a collaborator: \<open>io\<close> and the socket's \<open>on\<close>, \<open>emit\<close> and \<open>disconnect\<close>,
  the subscribed handlers, and the console. These calls are recorded, in program order,
  in the field \<open>trace\<close> kept beside the two fields of the class; the field \<open>opened\<close>
  counts the handles that \<open>io\<close> has returned so far, which gives every handle a number.

  Handlers are callbacks compared by identity; the type variable \<open>'h\<close> stands for them.
  What a handler does when it is called is not in the source. The one thing that matters
  to the client is whether the call returns or throws, since nothing in the class catches
  an exception: this is the parameter \<open>throws\<close>, which says for a handler and an event
  whether the call throws. Handlers are taken not to call back into the client while a
  dispatch is running.
\<close>

subsection \<open>Data\<close>

datatype EventType = locked | unlocked

record DrawingEventData =
  type :: EventType
  drawing_id :: string
  locked_by :: "string option"

text \<open>
  A socket as the client sees it: which handle it is (the \<open>n\<close>-th one returned by \<open>io\<close>)
  and the library-maintained flag \<open>connected\<close>.
\<close>

record Socket =
  sid :: nat
  connected :: bool

text \<open>
  \<open>TypeError\<close> is the failure of a method call on \<open>undefined\<close>; \<open>Thrown\<close> is an exception
  thrown by a handler.
\<close>

datatype error = TypeError | Thrown

text \<open>
  The calls the client makes: \<open>Io n\<close> is the call of \<open>io\<close> (on the \<open>/ws\<close> namespace of the
  configured base URL, with the reconnection options of the source) that returns handle
  \<open>n\<close>; \<open>On n e\<close> installs a listener for event \<open>e\<close> on handle \<open>n\<close>; \<open>Emit n e d\<close> sends
  event \<open>e\<close> with payload \<open>{drawing_id: d}\<close> on handle \<open>n\<close>; \<open>SocketDisconnect n\<close> closes
  handle \<open>n\<close>; \<open>Invoke h ev\<close> calls handler \<open>h\<close> with event \<open>ev\<close>; \<open>ConsoleLog\<close> and
  \<open>ConsoleError\<close> write to the console. \<open>Uncaught e\<close> is not a call of the client: it marks
  the point where an exception left a listener and reached the host.
\<close>

datatype 'h effect =
    Io nat
  | On nat string
  | Emit nat string string
  | SocketDisconnect nat
  | Invoke 'h DrawingEventData
  | ConsoleLog string
  | ConsoleError string
  | Uncaught error

record 'h WebSocketClient =
  socket :: "Socket option"
  subscriptions :: "string \<rightharpoonup> 'h list"
  opened :: nat
  trace :: "'h effect list"

text \<open>
  The result of a listener: \<open>Inr s\<close> when it returns with the client in state \<open>s\<close>,
  \<open>Inl (e, s)\<close> when exception \<open>e\<close> leaves it with the client in state \<open>s\<close>.
\<close>

type_synonym 'h outcome = "(error \<times> 'h WebSocketClient) + 'h WebSocketClient"

text \<open>The exported singleton \<open>new WebSocketClient()\<close>: no socket, an empty registry.\<close>

definition websocketClient :: "'h WebSocketClient" where
  "websocketClient = \<lparr>socket = None, subscriptions = Map.empty, opened = 0, trace = []\<rparr>"

subsection \<open>Listeners installed by \<open>connect\<close>\<close>

text \<open>
  \<open>handler({...})\<close>: the handler is called, and the call either returns or throws.
\<close>

definition call_handler :: "('h \<Rightarrow> DrawingEventData \<Rightarrow> bool) \<Rightarrow> DrawingEventData \<Rightarrow> 'h
    \<Rightarrow> 'h WebSocketClient \<Rightarrow> 'h outcome" where
  "call_handler throws ev handler s =
     (let s' = s\<lparr>trace := trace s @ [Invoke handler ev]\<rparr>
      in if throws handler ev then Inl (Thrown, s') else Inr s')"

text \<open>
  \<open>handlers.forEach(f)\<close>: the array is walked from index 0 upwards; an exception out of
  \<open>f\<close> ends the walk and leaves \<open>forEach\<close>.
\<close>

fun forEach :: "'h list \<Rightarrow> ('h \<Rightarrow> 'h WebSocketClient \<Rightarrow> 'h outcome)
    \<Rightarrow> 'h WebSocketClient \<Rightarrow> 'h outcome" where
  "forEach [] f s = Inr s"
| "forEach (handler # handlers) f s =
     (case f handler s of Inl e \<Rightarrow> Inl e | Inr s' \<Rightarrow> forEach handlers f s')"

text \<open>
  The \<open>drawing_locked\<close> listener; its payload \<open>{drawing_id, locked_by}\<close> is passed as two
  arguments. \<open>if (handlers)\<close> is the \<open>Some\<close> branch: an array is truthy even when empty.
  There is no \<open>try\<close> around the loop, so an exception out of a handler leaves the listener.
\<close>

definition on_drawing_locked :: "('h \<Rightarrow> DrawingEventData \<Rightarrow> bool) \<Rightarrow> string \<Rightarrow> string
    \<Rightarrow> 'h WebSocketClient \<Rightarrow> 'h outcome" where
  "on_drawing_locked throws data_drawing_id data_locked_by s =
     (case subscriptions s data_drawing_id of
        None \<Rightarrow> Inr s
      | Some handlers \<Rightarrow>
          forEach handlers
            (call_handler throws \<lparr>type = locked, drawing_id = data_drawing_id,
                                  locked_by = Some data_locked_by\<rparr>) s)"

definition on_drawing_unlocked :: "('h \<Rightarrow> DrawingEventData \<Rightarrow> bool) \<Rightarrow> string
    \<Rightarrow> 'h WebSocketClient \<Rightarrow> 'h outcome" where
  "on_drawing_unlocked throws data_drawing_id s =
     (case subscriptions s data_drawing_id of
        None \<Rightarrow> Inr s
      | Some handlers \<Rightarrow>
          forEach handlers
            (call_handler throws \<lparr>type = unlocked, drawing_id = data_drawing_id,
                                  locked_by = None\<rparr>) s)"

text \<open>
  The \<open>connect\<close>, \<open>disconnect\<close> and \<open>error\<close> listeners only write to the console; the error
  value printed after the prefix is not kept.
\<close>

definition on_connect :: "'h WebSocketClient \<Rightarrow> 'h WebSocketClient" where
  "on_connect s = s\<lparr>trace := trace s @ [ConsoleLog ''[WebSocket] Connected'']\<rparr>"

definition on_disconnect :: "'h WebSocketClient \<Rightarrow> 'h WebSocketClient" where
  "on_disconnect s = s\<lparr>trace := trace s @ [ConsoleLog ''[WebSocket] Disconnected'']\<rparr>"

definition on_error :: "'h WebSocketClient \<Rightarrow> 'h WebSocketClient" where
  "on_error s = s\<lparr>trace := trace s @ [ConsoleError ''[WebSocket] Error:'']\<rparr>"

text \<open>
  The socket library sets the flag \<open>connected\<close> of handle \<open>n\<close>. The client sees the change
  only when \<open>n\<close> is the handle it holds; a handle that \<open>connect\<close> has replaced, or that
  \<open>disconnect\<close> has released, is out of its sight.
\<close>

definition set_connected :: "nat \<Rightarrow> bool \<Rightarrow> 'h WebSocketClient \<Rightarrow> 'h WebSocketClient" where
  "set_connected n b s =
     (case socket s of
        None \<Rightarrow> s
      | Some k \<Rightarrow> if sid k = n then s\<lparr>socket := Some (k\<lparr>connected := b\<rparr>)\<rparr> else s)"

subsection \<open>Methods\<close>

text \<open>\<open>this.socket?.connected ?? false\<close>\<close>

definition isConnected :: "'h WebSocketClient \<Rightarrow> bool" where
  "isConnected s = (case socket s of None \<Rightarrow> False | Some k \<Rightarrow> connected k)"

text \<open>
  \<open>connect\<close>: the guard \<open>this.socket?.connected\<close> is falsy for a null socket. Otherwise
  \<open>io\<close> returns a new handle, not yet connected, which replaces the old one without
  closing it, and the five listeners are installed on it.
\<close>

definition connect :: "'h WebSocketClient \<Rightarrow> 'h WebSocketClient" where
  "connect s =
     (if (case socket s of None \<Rightarrow> False | Some k \<Rightarrow> connected k) then s
      else s\<lparr>socket := Some \<lparr>sid = opened s, connected = False\<rparr>,
             opened := Suc (opened s),
             trace := trace s @ Io (opened s) #
               map (On (opened s))
                 [''connect'', ''disconnect'', ''drawing_locked'', ''drawing_unlocked'',
                  ''error'']\<rparr>)"

text \<open>
  \<open>disconnect\<close>: \<open>this.socket.disconnect()\<close> on a connected handle clears its flag and fires
  the \<open>disconnect\<close> listener at once, before the handle is released and the registry
  cleared; on a handle that is not connected it fires nothing.
\<close>

definition disconnect :: "'h WebSocketClient \<Rightarrow> 'h WebSocketClient" where
  "disconnect s =
     (case socket s of
        None \<Rightarrow> s
      | Some k \<Rightarrow>
          (let s1 = s\<lparr>trace := trace s @ [SocketDisconnect (sid k)]\<rparr>;
               s2 = (if connected k then on_disconnect (set_connected (sid k) False s1) else s1)
           in s2\<lparr>socket := None, subscriptions := Map.empty\<rparr>))"

text \<open>
  \<open>subscribeDrawing\<close>: \<open>this.subscriptions.get(drawingId)!.push(handler)\<close> would fail with
  a TypeError on a missing entry; that is the \<open>None\<close> branch.
\<close>

definition subscribeDrawing :: "string \<Rightarrow> 'h \<Rightarrow> 'h WebSocketClient \<Rightarrow> error + 'h WebSocketClient" where
  "subscribeDrawing drawingId handler s =
     (let s1 = (if \<not> (case socket s of None \<Rightarrow> False | Some k \<Rightarrow> connected k)
                then connect s else s);
          s2 = (if subscriptions s1 drawingId = None
                then s1\<lparr>subscriptions := (subscriptions s1)(drawingId \<mapsto> [])\<rparr> else s1)
      in case subscriptions s2 drawingId of
           None \<Rightarrow> Inl TypeError
         | Some handlers \<Rightarrow>
             (let s3 = s2\<lparr>subscriptions := (subscriptions s2)(drawingId \<mapsto> handlers @ [handler])\<rparr>
              in Inr (case socket s3 of
                        None \<Rightarrow> s3
                      | Some k \<Rightarrow> s3\<lparr>trace := trace s3 @
                                       [Emit (sid k) ''subscribe_drawing'' drawingId]\<rparr>)))"

definition unsubscribeDrawing :: "string \<Rightarrow> 'h WebSocketClient \<Rightarrow> 'h WebSocketClient" where
  "unsubscribeDrawing drawingId s =
     (let s1 = s\<lparr>subscriptions := (subscriptions s)(drawingId := None)\<rparr>
      in case socket s1 of
           None \<Rightarrow> s1
         | Some k \<Rightarrow> s1\<lparr>trace := trace s1 @ [Emit (sid k) ''unsubscribe_drawing'' drawingId]\<rparr>)"

subsection \<open>Runs of the client\<close>

text \<open>
  What can happen to the client: a call of one of its four state-changing methods, or the
  socket library firing one of the installed listeners. The transport events name the
  handle they are about, which may be one that \<open>connect\<close> has replaced: the library has set
  the \<open>connected\<close> flag of that handle before the listener runs. Inbound messages may
  arrive in any state, on any handle. The runs include orders of events that the
  library never produces, such as a transport event on a handle that is not open; what
  holds of all runs holds of the real ones among them.

  A method call that fails ends the run with its error. An exception that leaves a
  listener goes to the host, which reports it; the client stays as the listener left it
  and the run goes on.
\<close>

datatype 'h action =
    Connect
  | Disconnect
  | SubscribeDrawing string 'h
  | UnsubscribeDrawing string
  | TransportConnect nat
  | TransportDisconnect nat
  | TransportError
  | DrawingLocked string string
  | DrawingUnlocked string

definition report_uncaught :: "'h outcome \<Rightarrow> 'h WebSocketClient" where
  "report_uncaught r =
     (case r of Inl (e, s) \<Rightarrow> s\<lparr>trace := trace s @ [Uncaught e]\<rparr> | Inr s \<Rightarrow> s)"

fun step :: "('h \<Rightarrow> DrawingEventData \<Rightarrow> bool) \<Rightarrow> 'h action \<Rightarrow> 'h WebSocketClient
    \<Rightarrow> error + 'h WebSocketClient" where
  "step throws Connect s = Inr (connect s)"
| "step throws Disconnect s = Inr (disconnect s)"
| "step throws (SubscribeDrawing drawingId handler) s = subscribeDrawing drawingId handler s"
| "step throws (UnsubscribeDrawing drawingId) s = Inr (unsubscribeDrawing drawingId s)"
| "step throws (TransportConnect n) s = Inr (on_connect (set_connected n True s))"
| "step throws (TransportDisconnect n) s = Inr (on_disconnect (set_connected n False s))"
| "step throws TransportError s = Inr (on_error s)"
| "step throws (DrawingLocked d u) s = Inr (report_uncaught (on_drawing_locked throws d u s))"
| "step throws (DrawingUnlocked d) s = Inr (report_uncaught (on_drawing_unlocked throws d s))"

fun run :: "('h \<Rightarrow> DrawingEventData \<Rightarrow> bool) \<Rightarrow> 'h action list \<Rightarrow> 'h WebSocketClient
    \<Rightarrow> error + 'h WebSocketClient" where
  "run throws [] s = Inr s"
| "run throws (a # as) s =
     (case step throws a s of Inl e \<Rightarrow> Inl e | Inr s' \<Rightarrow> run throws as s')"

subsection \<open>Observations used in the statements\<close>

text \<open>The state in which a listener leaves the client, whether it returned or threw.\<close>

definition state_of :: "'h outcome \<Rightarrow> 'h WebSocketClient" where
  "state_of r = (case r of Inl (e, s) \<Rightarrow> s | Inr s \<Rightarrow> s)"

text \<open>
  The handlers of a list that a dispatch calls: those in front of the first one that
  throws, and that one.
\<close>

definition called :: "('h \<Rightarrow> DrawingEventData \<Rightarrow> bool) \<Rightarrow> DrawingEventData \<Rightarrow> 'h list \<Rightarrow> 'h list" where
  "called throws ev hs =
     takeWhile (\<lambda>h. \<not> throws h ev) hs @
     (case dropWhile (\<lambda>h. \<not> throws h ev) hs of [] \<Rightarrow> [] | h # rest \<Rightarrow> [h])"

text \<open>The handlers registered for a drawing id, in array order; none without an entry.\<close>

definition registry_list :: "'h WebSocketClient \<Rightarrow> string \<Rightarrow> 'h list" where
  "registry_list s d = (case subscriptions s d of None \<Rightarrow> [] | Some hs \<Rightarrow> hs)"

text \<open>A client without a transport handle has an empty registry.\<close>

definition handle_guards_registry :: "'h WebSocketClient \<Rightarrow> bool" where
  "handle_guards_registry s = (socket s = None \<longrightarrow> subscriptions s = Map.empty)"

text \<open>
  Every handler in the registry, and every handler call in the trace, belongs to a pair
  (drawing id, handler) of the set \<open>R\<close>.
\<close>

definition registered_in :: "(string \<times> 'h) set \<Rightarrow> 'h WebSocketClient \<Rightarrow> bool" where
  "registered_in R s =
     ((\<forall>d hs h. subscriptions s d = Some hs \<longrightarrow> h \<in> set hs \<longrightarrow> (d, h) \<in> R) \<and>
      (\<forall>h ev. Invoke h ev \<in> set (trace s) \<longrightarrow> (drawing_id ev, h) \<in> R))"

text \<open>The pairs (drawing id, handler) that a list of actions subscribes.\<close>

definition subscribed_by :: "'h action list \<Rightarrow> (string \<times> 'h) set" where
  "subscribed_by acts = {(d, h). SubscribeDrawing d h \<in> set acts}"

text \<open>
  A handler behaviour for concrete runs: the calls of handler \<open>x\<close> throw, whatever the
  event, and the calls of every other handler return.
\<close>

definition throws_only :: "'h \<Rightarrow> 'h \<Rightarrow> DrawingEventData \<Rightarrow> bool" where
  "throws_only x h ev = (h = x)"

section \<open>Basic facts\<close>

subsection \<open>Dispatch\<close>

lemma forEach_all_return:
  "\<forall>h\<in>set hs. \<not> throws h ev \<Longrightarrow>
   forEach hs (call_handler throws ev) s = Inr (s\<lparr>trace := trace s @ map (\<lambda>h. Invoke h ev) hs\<rparr>)"
  by (induction hs arbitrary: s) (simp_all add: call_handler_def)

lemma forEach_state_of:
  "state_of (forEach hs (call_handler throws ev) s) =
     s\<lparr>trace := trace s @ map (\<lambda>h. Invoke h ev) (called throws ev hs)\<rparr>"
proof (induction hs arbitrary: s)
  case Nil
  show ?case by (simp add: state_of_def called_def)
next
  case (Cons h hs)
  show ?case
  proof (cases "throws h ev")
    case True
    then show ?thesis by (simp add: call_handler_def state_of_def called_def)
  next
    case False
    with Cons.IH [of "s\<lparr>trace := trace s @ [Invoke h ev]\<rparr>"] show ?thesis
      by (simp add: call_handler_def called_def)
  qed
qed

lemma forEach_some_throws:
  "\<exists>h\<in>set hs. throws h ev \<Longrightarrow> \<exists>s'. forEach hs (call_handler throws ev) s = Inl (Thrown, s')"
proof (induction hs arbitrary: s)
  case Nil
  then show ?case by simp
next
  case (Cons h hs)
  then show ?case by (cases "throws h ev") (auto simp: call_handler_def)
qed

lemma called_subset: "set (called throws ev hs) \<subseteq> set hs"
  by (induction hs) (auto simp: called_def)

lemma called_all_return: "\<forall>h\<in>set hs. \<not> throws h ev \<Longrightarrow> called throws ev hs = hs"
  by (induction hs) (simp_all add: called_def)

lemma on_drawing_locked_returns:
  "subscriptions s d = Some hs \<Longrightarrow>
   \<forall>h\<in>set hs. \<not> throws h \<lparr>type = locked, drawing_id = d, locked_by = Some u\<rparr> \<Longrightarrow>
   on_drawing_locked throws d u s =
     Inr (s\<lparr>trace := trace s @
          map (\<lambda>h. Invoke h \<lparr>type = locked, drawing_id = d, locked_by = Some u\<rparr>) hs\<rparr>)"
  by (simp add: on_drawing_locked_def forEach_all_return)


lemma on_drawing_locked_state_of:
  "subscriptions s d = Some hs \<Longrightarrow>
   state_of (on_drawing_locked throws d u s) =
     s\<lparr>trace := trace s @
          map (\<lambda>h. Invoke h \<lparr>type = locked, drawing_id = d, locked_by = Some u\<rparr>)
            (called throws \<lparr>type = locked, drawing_id = d, locked_by = Some u\<rparr> hs)\<rparr>"
  by (simp add: on_drawing_locked_def forEach_state_of)

lemma on_drawing_unlocked_state_of:
  "subscriptions s d = Some hs \<Longrightarrow>
   state_of (on_drawing_unlocked throws d s) =
     s\<lparr>trace := trace s @
          map (\<lambda>h. Invoke h \<lparr>type = unlocked, drawing_id = d, locked_by = None\<rparr>)
            (called throws \<lparr>type = unlocked, drawing_id = d, locked_by = None\<rparr> hs)\<rparr>"
  by (simp add: on_drawing_unlocked_def forEach_state_of)

lemma on_drawing_locked_None:
  "subscriptions s d = None \<Longrightarrow> on_drawing_locked throws d u s = Inr s"
  by (simp add: on_drawing_locked_def)

lemma on_drawing_unlocked_None:
  "subscriptions s d = None \<Longrightarrow> on_drawing_unlocked throws d s = Inr s"
  by (simp add: on_drawing_unlocked_def)

lemma report_uncaught_fields [simp]:
  "socket (report_uncaught r) = socket (state_of r)"
  "subscriptions (report_uncaught r) = subscriptions (state_of r)"
  "opened (report_uncaught r) = opened (state_of r)"
  "Invoke h ev \<in> set (trace (report_uncaught r)) \<longleftrightarrow> Invoke h ev \<in> set (trace (state_of r))"
  by (auto simp: report_uncaught_def state_of_def split: sum.splits)

lemma on_drawing_locked_frame:
  "\<exists>t. state_of (on_drawing_locked throws d u s) = s\<lparr>trace := t\<rparr>"
proof (cases "subscriptions s d")
  case None
  then have "state_of (on_drawing_locked throws d u s) = s\<lparr>trace := trace s\<rparr>"
    by (simp add: on_drawing_locked_None state_of_def)
  then show ?thesis ..
next
  case (Some hs)
  from on_drawing_locked_state_of [OF Some, of throws u] show ?thesis ..
qed

lemma on_drawing_unlocked_frame:
  "\<exists>t. state_of (on_drawing_unlocked throws d s) = s\<lparr>trace := t\<rparr>"
proof (cases "subscriptions s d")
  case None
  then have "state_of (on_drawing_unlocked throws d s) = s\<lparr>trace := trace s\<rparr>"
    by (simp add: on_drawing_unlocked_None state_of_def)
  then show ?thesis ..
next
  case (Some hs)
  from on_drawing_unlocked_state_of [OF Some, of throws] show ?thesis ..
qed

lemma on_drawing_locked_fields [simp]:
  "socket (state_of (on_drawing_locked throws d u s)) = socket s"
  "subscriptions (state_of (on_drawing_locked throws d u s)) = subscriptions s"
  "opened (state_of (on_drawing_locked throws d u s)) = opened s"
  using on_drawing_locked_frame [of throws d u s] by auto

lemma on_drawing_unlocked_fields [simp]:
  "socket (state_of (on_drawing_unlocked throws d s)) = socket s"
  "subscriptions (state_of (on_drawing_unlocked throws d s)) = subscriptions s"
  "opened (state_of (on_drawing_unlocked throws d s)) = opened s"
  using on_drawing_unlocked_frame [of throws d s] by auto

subsection \<open>Subscribing never fails; runs are total\<close>

lemma subscribeDrawing_connected:
  assumes "socket s = Some k" and "connected k"
  shows "subscribeDrawing D H s =
     Inr (s\<lparr>subscriptions := (subscriptions s)(D \<mapsto> registry_list s D @ [H]),
            trace := trace s @ [Emit (sid k) ''subscribe_drawing'' D]\<rparr>)"
  using assms
  by (simp add: subscribeDrawing_def registry_list_def Let_def split: option.splits)

lemma subscribeDrawing_disconnected:
  assumes "\<not> isConnected s"
  shows "subscribeDrawing D H s =
     Inr ((connect s)\<lparr>subscriptions := (subscriptions s)(D \<mapsto> registry_list s D @ [H]),
            trace := trace (connect s) @ [Emit (opened s) ''subscribe_drawing'' D]\<rparr>)"
  using assms
  by (simp add: subscribeDrawing_def registry_list_def isConnected_def connect_def Let_def
           split: option.splits)

lemma subscribeDrawing_subscriptions:
  "\<exists>s'. subscribeDrawing D H s = Inr s' \<and>
        subscriptions s' = (subscriptions s)(D \<mapsto> registry_list s D @ [H]) \<and>
        socket s' \<noteq> None"
proof (cases "isConnected s")
  case True
  then obtain k where "socket s = Some k" "connected k"
    by (auto simp: isConnected_def split: option.splits)
  then show ?thesis by (simp add: subscribeDrawing_connected)
next
  case False
  then show ?thesis
    by (simp add: subscribeDrawing_disconnected) (simp add: connect_def isConnected_def)
qed

lemma step_total: "\<exists>s'. step throws a s = Inr s'"
  using subscribeDrawing_subscriptions by (cases a) fastforce+

lemma run_total: "\<exists>s'. run throws acts s = Inr s'"
proof (induction acts arbitrary: s)
  case Nil
  show ?case by simp
next
  case (Cons a acts)
  obtain s1 where "step throws a s = Inr s1" using step_total by blast
  with Cons.IH [of s1] show ?case by simp
qed

subsection \<open>A client without a handle has an empty registry\<close>

lemma step_handle_guards_registry:
  assumes "handle_guards_registry s" and "step throws a s = Inr s'"
  shows "handle_guards_registry s'"
proof (cases a)
  case (SubscribeDrawing D H)
  with assms(2) subscribeDrawing_subscriptions [of D H s] show ?thesis
    by (auto simp: handle_guards_registry_def)
next
  case (UnsubscribeDrawing D)
  with assms show ?thesis
    by (auto simp: handle_guards_registry_def unsubscribeDrawing_def Let_def split: option.splits)
next
  case (DrawingLocked d u)
  with assms show ?thesis by (auto simp: handle_guards_registry_def)
next
  case (DrawingUnlocked d)
  with assms show ?thesis by (auto simp: handle_guards_registry_def)
qed (use assms in \<open>auto simp: handle_guards_registry_def connect_def disconnect_def
       on_connect_def on_disconnect_def on_error_def set_connected_def Let_def
       split: option.splits if_splits\<close>)

lemma run_handle_guards_registry:
  "handle_guards_registry s \<Longrightarrow> run throws acts s = Inr s' \<Longrightarrow> handle_guards_registry s'"
proof (induction acts arbitrary: s)
  case Nil
  then show ?case by simp
next
  case (Cons a acts)
  obtain s1 where s1: "step throws a s = Inr s1" using step_total by blast
  with Cons.prems have "run throws acts s1 = Inr s'" by simp
  moreover have "handle_guards_registry s1"
    using Cons.prems(1) s1 by (rule step_handle_guards_registry)
  ultimately show ?case by (rule Cons.IH [rotated])
qed

lemma websocketClient_handle_guards_registry: "handle_guards_registry websocketClient"
  by (simp add: handle_guards_registry_def websocketClient_def)

subsection \<open>Handler calls stay within the registrations\<close>

lemma new_invocations_locked:
  assumes "Invoke h ev \<in> set (drop (length (trace s))
             (trace (state_of (on_drawing_locked throws d u s))))"
  shows "(\<exists>hs. subscriptions s d = Some hs \<and> h \<in> set hs) \<and>
         ev = \<lparr>type = locked, drawing_id = d, locked_by = Some u\<rparr>"
proof (cases "subscriptions s d")
  case None
  with assms show ?thesis by (simp add: on_drawing_locked_None state_of_def)
next
  case (Some hs)
  with assms called_subset [of throws "\<lparr>type = locked, drawing_id = d, locked_by = Some u\<rparr>" hs]
  show ?thesis by (auto simp: on_drawing_locked_state_of)
qed

lemma new_invocations_unlocked:
  assumes "Invoke h ev \<in> set (drop (length (trace s))
             (trace (state_of (on_drawing_unlocked throws d s))))"
  shows "(\<exists>hs. subscriptions s d = Some hs \<and> h \<in> set hs) \<and>
         ev = \<lparr>type = unlocked, drawing_id = d, locked_by = None\<rparr>"
proof (cases "subscriptions s d")
  case None
  with assms show ?thesis by (simp add: on_drawing_unlocked_None state_of_def)
next
  case (Some hs)
  with assms called_subset [of throws "\<lparr>type = unlocked, drawing_id = d, locked_by = None\<rparr>" hs]
  show ?thesis by (auto simp: on_drawing_unlocked_state_of)
qed

lemma locked_trace_prefix:
  "take (length (trace s)) (trace (state_of (on_drawing_locked throws d u s))) = trace s"
proof (cases "subscriptions s d")
  case None
  then show ?thesis by (simp add: on_drawing_locked_None state_of_def)
next
  case (Some hs)
  then show ?thesis by (simp add: on_drawing_locked_state_of)
qed

lemma unlocked_trace_prefix:
  "take (length (trace s)) (trace (state_of (on_drawing_unlocked throws d s))) = trace s"
proof (cases "subscriptions s d")
  case None
  then show ?thesis by (simp add: on_drawing_unlocked_None state_of_def)
next
  case (Some hs)
  then show ?thesis by (simp add: on_drawing_unlocked_state_of)
qed

lemma invocations_after_locked:
  assumes "Invoke h ev \<in> set (trace (state_of (on_drawing_locked throws d u s)))"
  shows "Invoke h ev \<in> set (trace s) \<or>
         (\<exists>hs. subscriptions s d = Some hs \<and> h \<in> set hs) \<and> drawing_id ev = d"
proof -
  let ?t = "trace (state_of (on_drawing_locked throws d u s))"
  have "?t = take (length (trace s)) ?t @ drop (length (trace s)) ?t" by simp
  then have "?t = trace s @ drop (length (trace s)) ?t"
    by (simp only: locked_trace_prefix)
  then have "set ?t = set (trace s) \<union> set (drop (length (trace s)) ?t)"
    by (metis set_append)
  with assms new_invocations_locked [of h ev s throws d u] show ?thesis by auto
qed

lemma invocations_after_unlocked:
  assumes "Invoke h ev \<in> set (trace (state_of (on_drawing_unlocked throws d s)))"
  shows "Invoke h ev \<in> set (trace s) \<or>
         (\<exists>hs. subscriptions s d = Some hs \<and> h \<in> set hs) \<and> drawing_id ev = d"
proof -
  let ?t = "trace (state_of (on_drawing_unlocked throws d s))"
  have "?t = take (length (trace s)) ?t @ drop (length (trace s)) ?t" by simp
  then have "?t = trace s @ drop (length (trace s)) ?t"
    by (simp only: unlocked_trace_prefix)
  then have "set ?t = set (trace s) \<union> set (drop (length (trace s)) ?t)"
    by (metis set_append)
  with assms new_invocations_unlocked [of h ev s throws d] show ?thesis by auto
qed

lemma subscribeDrawing_invocations:
  assumes "subscribeDrawing D H s = Inr s'"
  shows "Invoke h ev \<in> set (trace s') \<longleftrightarrow> Invoke h ev \<in> set (trace s)"
proof (cases "isConnected s")
  case True
  then obtain k where "socket s = Some k" "connected k"
    by (auto simp: isConnected_def split: option.splits)
  with assms show ?thesis by (auto simp: subscribeDrawing_connected)
next
  case False
  with assms show ?thesis
    by (auto simp: subscribeDrawing_disconnected) (auto simp: connect_def isConnected_def)
qed

lemma step_registered_in:
  assumes "registered_in R s" and "step throws a s = Inr s'"
  shows "registered_in (R \<union> subscribed_by [a]) s'"
proof (cases a)
  case (SubscribeDrawing D H)
  with assms(2) have sub: "subscribeDrawing D H s = Inr s'" by simp
  with subscribeDrawing_subscriptions [of D H s]
  have regs: "subscriptions s' = (subscriptions s)(D \<mapsto> registry_list s D @ [H])" by auto
  show ?thesis
    unfolding registered_in_def
  proof (intro conjI allI impI)
    fix d hs h
    assume "subscriptions s' d = Some hs" and "h \<in> set hs"
    with regs assms(1) show "(d, h) \<in> R \<union> subscribed_by [a]"
      by (auto simp: registered_in_def subscribed_by_def SubscribeDrawing registry_list_def
               split: if_splits option.splits)
  next
    fix h ev
    assume "Invoke h ev \<in> set (trace s')"
    with subscribeDrawing_invocations [OF sub] assms(1)
    show "(drawing_id ev, h) \<in> R \<union> subscribed_by [a]"
      by (auto simp: registered_in_def)
  qed
next
  case (DrawingLocked d u)
  with assms(2) have s': "s' = report_uncaught (on_drawing_locked throws d u s)" by simp
  show ?thesis
    unfolding registered_in_def
  proof (intro conjI allI impI)
    fix d' hs h
    assume "subscriptions s' d' = Some hs" and "h \<in> set hs"
    with assms(1) s' show "(d', h) \<in> R \<union> subscribed_by [a]"
      by (auto simp: registered_in_def)
  next
    fix h ev
    assume "Invoke h ev \<in> set (trace s')"
    with s' have "Invoke h ev \<in> set (trace (state_of (on_drawing_locked throws d u s)))"
      by simp
    from invocations_after_locked [OF this] assms(1)
    show "(drawing_id ev, h) \<in> R \<union> subscribed_by [a]"
      by (auto simp: registered_in_def)
  qed
next
  case (DrawingUnlocked d)
  with assms(2) have s': "s' = report_uncaught (on_drawing_unlocked throws d s)" by simp
  show ?thesis
    unfolding registered_in_def
  proof (intro conjI allI impI)
    fix d' hs h
    assume "subscriptions s' d' = Some hs" and "h \<in> set hs"
    with assms(1) s' show "(d', h) \<in> R \<union> subscribed_by [a]"
      by (auto simp: registered_in_def)
  next
    fix h ev
    assume "Invoke h ev \<in> set (trace s')"
    with s' have "Invoke h ev \<in> set (trace (state_of (on_drawing_unlocked throws d s)))"
      by simp
    from invocations_after_unlocked [OF this] assms(1)
    show "(drawing_id ev, h) \<in> R \<union> subscribed_by [a]"
      by (auto simp: registered_in_def)
  qed
next
  case (UnsubscribeDrawing D)
  with assms show ?thesis
    by (auto simp: registered_in_def unsubscribeDrawing_def Let_def
             split: option.splits if_splits)
qed (use assms in \<open>auto simp: registered_in_def connect_def disconnect_def
       on_connect_def on_disconnect_def on_error_def set_connected_def Let_def
       split: option.splits if_splits\<close>)

lemma run_registered_in:
  "registered_in R s \<Longrightarrow> run throws acts s = Inr s' \<Longrightarrow>
   registered_in (R \<union> subscribed_by acts) s'"
proof (induction acts arbitrary: R s)
  case Nil
  then show ?case by (simp add: subscribed_by_def)
next
  case (Cons a acts)
  obtain s1 where s1: "step throws a s = Inr s1" using step_total by blast
  with Cons.prems have r: "run throws acts s1 = Inr s'" by simp
  have "registered_in (R \<union> subscribed_by [a]) s1"
    using Cons.prems(1) s1 by (rule step_registered_in)
  from Cons.IH [OF this r]
  have "registered_in (R \<union> subscribed_by [a] \<union> subscribed_by acts) s'" .
  moreover have "R \<union> subscribed_by [a] \<union> subscribed_by acts = R \<union> subscribed_by (a # acts)"
    by (auto simp: subscribed_by_def)
  ultimately show ?case by simp
qed

lemma websocketClient_registered_in: "registered_in {} websocketClient"
  by (simp add: registered_in_def websocketClient_def)

subsection \<open>Unfolding the client on concrete runs\<close>

lemmas client_eval =
  websocketClient_def connect_def disconnect_def subscribeDrawing_def unsubscribeDrawing_def
  on_drawing_locked_def on_drawing_unlocked_def call_handler_def on_connect_def
  on_disconnect_def on_error_def set_connected_def isConnected_def report_uncaught_def
  state_of_def Let_def

section \<open>Dispatch of inbound messages\<close>

text \<open>
  C1, as amended. When the registry holds a handler list for drawing id \<open>D\<close>, the
  \<open>drawing_locked\<close> listener, given \<open>{drawing_id: D, locked_by: U}\<close>, calls the entries of that
  list one after the other from the front, each with the event
  \<open>{type: locked, drawing_id: D, locked_by: U}\<close>, up to and including the first entry whose
  call throws, and changes nothing else. When no call throws, every entry is called once
  and the listener returns; when one throws, the exception leaves the listener. The list
  is in registration order: \<open>subscribeDrawing\<close> puts a new handler behind the ones already
  there.
\<close>

theorem drawing_locked_invokes_in_registration_order:
  fixes s :: "'h WebSocketClient"
  assumes "subscriptions s D = Some hs" and "hs \<noteq> []"
  shows "((\<forall>h\<in>set hs. \<not> throws h \<lparr>type = locked, drawing_id = D, locked_by = Some U\<rparr>) \<longrightarrow>
            on_drawing_locked throws D U s =
              Inr (s\<lparr>trace := trace s @
                     map (\<lambda>h. Invoke h \<lparr>type = locked, drawing_id = D, locked_by = Some U\<rparr>) hs\<rparr>))
         \<and> state_of (on_drawing_locked throws D U s) =
              s\<lparr>trace := trace s @
                   map (\<lambda>h. Invoke h \<lparr>type = locked, drawing_id = D, locked_by = Some U\<rparr>)
                     (called throws \<lparr>type = locked, drawing_id = D, locked_by = Some U\<rparr> hs)\<rparr>
         \<and> ((\<exists>h\<in>set hs. throws h \<lparr>type = locked, drawing_id = D, locked_by = Some U\<rparr>) \<longrightarrow>
              (\<exists>s'. on_drawing_locked throws D U s = Inl (Thrown, s')))
         \<and> (\<exists>s'. subscribeDrawing D H s = Inr s' \<and> subscriptions s' D = Some (hs @ [H]))"
proof (intro conjI impI)
  assume "\<forall>h\<in>set hs. \<not> throws h \<lparr>type = locked, drawing_id = D, locked_by = Some U\<rparr>"
  with assms(1) show "on_drawing_locked throws D U s =
      Inr (s\<lparr>trace := trace s @
             map (\<lambda>h. Invoke h \<lparr>type = locked, drawing_id = D, locked_by = Some U\<rparr>) hs\<rparr>)"
    by (rule on_drawing_locked_returns)
next
  show "state_of (on_drawing_locked throws D U s) =
      s\<lparr>trace := trace s @
           map (\<lambda>h. Invoke h \<lparr>type = locked, drawing_id = D, locked_by = Some U\<rparr>)
             (called throws \<lparr>type = locked, drawing_id = D, locked_by = Some U\<rparr> hs)\<rparr>"
    using assms(1) by (rule on_drawing_locked_state_of)
next
  assume "\<exists>h\<in>set hs. throws h \<lparr>type = locked, drawing_id = D, locked_by = Some U\<rparr>"
  with forEach_some_throws
         [of hs throws "\<lparr>type = locked, drawing_id = D, locked_by = Some U\<rparr>" s] assms(1)
  show "\<exists>s'. on_drawing_locked throws D U s = Inl (Thrown, s')"
    by (simp add: on_drawing_locked_def)
next
  from subscribeDrawing_subscriptions [of D H s] assms(1)
  show "\<exists>s'. subscribeDrawing D H s = Inr s' \<and> subscriptions s' D = Some (hs @ [H])"
    by (auto simp: registry_list_def)
qed

theorem drawing_locked_invokes_in_registration_order_witness:
  "\<exists>s. run (\<lambda>h ev. False) [SubscribeDrawing ''drawing-42'' (1::nat), SubscribeDrawing ''drawing-42'' 2]
          websocketClient = Inr s
     \<and> subscriptions s ''drawing-42'' = Some [1, 2] \<and> [1, 2] \<noteq> ([]::nat list)
     \<and> on_drawing_locked (\<lambda>h ev. False) ''drawing-42'' ''alice'' s =
         Inr (s\<lparr>trace := trace s @
           [Invoke 1 \<lparr>type = locked, drawing_id = ''drawing-42'', locked_by = Some ''alice''\<rparr>,
            Invoke 2 \<lparr>type = locked, drawing_id = ''drawing-42'', locked_by = Some ''alice''\<rparr>]\<rparr>)
     \<and> (\<exists>s'. on_drawing_locked (\<lambda>h ev. h = 1) ''drawing-42'' ''alice'' s = Inl (Thrown, s'))
     \<and> state_of (on_drawing_locked (\<lambda>h ev. h = 1) ''drawing-42'' ''alice'' s) =
         s\<lparr>trace := trace s @
           [Invoke 1 \<lparr>type = locked, drawing_id = ''drawing-42'', locked_by = Some ''alice''\<rparr>]\<rparr>"
proof -
  let ?acts = "[SubscribeDrawing ''drawing-42'' (1::nat), SubscribeDrawing ''drawing-42'' 2]"
  have "\<exists>s. run (\<lambda>h ev. False) ?acts websocketClient = Inr s
          \<and> subscriptions s ''drawing-42'' = Some [1, 2]"
    by (simp add: client_eval)
  then obtain s where s: "run (\<lambda>h ev. False) ?acts websocketClient = Inr s"
    and r: "subscriptions s ''drawing-42'' = Some [1, 2]"
    by blast
  have ne: "[1, 2] \<noteq> ([]::nat list)" by simp
  from drawing_locked_invokes_in_registration_order
         [OF r ne, where throws = "\<lambda>h ev. False" and U = "''alice''" and H = 3]
  have a: "on_drawing_locked (\<lambda>h ev. False) ''drawing-42'' ''alice'' s =
         Inr (s\<lparr>trace := trace s @
           [Invoke 1 \<lparr>type = locked, drawing_id = ''drawing-42'', locked_by = Some ''alice''\<rparr>,
            Invoke 2 \<lparr>type = locked, drawing_id = ''drawing-42'', locked_by = Some ''alice''\<rparr>]\<rparr>)"
    by simp
  note t = drawing_locked_invokes_in_registration_order
         [OF r ne, where throws = "\<lambda>h ev. h = 1" and U = "''alice''" and H = 3]
  from t have b: "\<exists>s'. on_drawing_locked (\<lambda>h ev. h = 1) ''drawing-42'' ''alice'' s = Inl (Thrown, s')"
    by simp
  from t have c: "state_of (on_drawing_locked (\<lambda>h ev. h = 1) ''drawing-42'' ''alice'' s) =
         s\<lparr>trace := trace s @
           [Invoke 1 \<lparr>type = locked, drawing_id = ''drawing-42'', locked_by = Some ''alice''\<rparr>]\<rparr>"
    by (simp add: called_def)
  from s r ne a b c show ?thesis by blast
qed

text \<open>
  C1, as stated, fails: with handlers 1 and 2 subscribed to \<open>drawing-42\<close> in this order and
  the call of handler 1 throwing, a \<open>drawing_locked\<close> message for \<open>drawing-42\<close> calls
  handler 1 only; handler 2 is registered and not called.
\<close>

theorem drawing_locked_invokes_in_registration_order_counterexample:
  "run (throws_only 1)
     [Connect, TransportConnect 0, SubscribeDrawing ''drawing-42'' (1::nat),
      SubscribeDrawing ''drawing-42'' 2, DrawingLocked ''drawing-42'' ''alice''] websocketClient =
   Inr \<lparr>socket = Some \<lparr>sid = 0, connected = True\<rparr>,
        subscriptions = [''drawing-42'' \<mapsto> [1, 2]],
        opened = 1,
        trace =
          [Io 0, On 0 ''connect'', On 0 ''disconnect'', On 0 ''drawing_locked'',
           On 0 ''drawing_unlocked'', On 0 ''error'', ConsoleLog ''[WebSocket] Connected'',
           Emit 0 ''subscribe_drawing'' ''drawing-42'',
           Emit 0 ''subscribe_drawing'' ''drawing-42'',
           Invoke 1 \<lparr>type = locked, drawing_id = ''drawing-42'', locked_by = Some ''alice''\<rparr>,
           Uncaught Thrown]\<rparr>"
  by (simp add: client_eval throws_only_def)

text \<open>
  C2. After \<open>H1\<close> and \<open>H2\<close> have been subscribed to drawing id \<open>D\<close>, \<open>unsubscribeDrawing D\<close>
  leaves no entry for \<open>D\<close> in the registry, and a \<open>drawing_locked\<close> or \<open>drawing_unlocked\<close>
  message for \<open>D\<close> then returns without calling any handler. The same holds for
  \<open>unsubscribeDrawing D\<close> in any state \<open>t\<close>, whatever was subscribed before.
\<close>

theorem unsubscribeDrawing_removes_all_handlers:
  fixes s t :: "'h WebSocketClient"
  shows "(\<exists>s1 s2. subscribeDrawing D H1 s = Inr s1 \<and> subscribeDrawing D H2 s1 = Inr s2 \<and>
            subscriptions s2 D = Some (registry_list s D @ [H1, H2]) \<and>
            subscriptions (unsubscribeDrawing D s2) D = None \<and>
            on_drawing_locked throws D U (unsubscribeDrawing D s2) = Inr (unsubscribeDrawing D s2) \<and>
            on_drawing_unlocked throws D (unsubscribeDrawing D s2) = Inr (unsubscribeDrawing D s2))
         \<and> subscriptions (unsubscribeDrawing D t) D = None
         \<and> on_drawing_locked throws D U (unsubscribeDrawing D t) = Inr (unsubscribeDrawing D t)
         \<and> on_drawing_unlocked throws D (unsubscribeDrawing D t) = Inr (unsubscribeDrawing D t)"
proof -
  have gone: "subscriptions (unsubscribeDrawing D x) D = None" for x :: "'h WebSocketClient"
    by (simp add: unsubscribeDrawing_def Let_def split: option.splits)
  obtain s1 where s1: "subscribeDrawing D H1 s = Inr s1"
    and r1: "subscriptions s1 = (subscriptions s)(D \<mapsto> registry_list s D @ [H1])"
    using subscribeDrawing_subscriptions [of D H1 s] by blast
  obtain s2 where s2: "subscribeDrawing D H2 s1 = Inr s2"
    and r2: "subscriptions s2 = (subscriptions s1)(D \<mapsto> registry_list s1 D @ [H2])"
    using subscribeDrawing_subscriptions [of D H2 s1] by blast
  from r1 r2 have "subscriptions s2 D = Some (registry_list s D @ [H1, H2])"
    by (simp add: registry_list_def)
  with s1 s2 gone show ?thesis
    by (simp add: on_drawing_locked_None on_drawing_unlocked_None)
qed

theorem unsubscribeDrawing_removes_all_handlers_witness:
  "\<exists>s. run (\<lambda>h ev. True)
          [SubscribeDrawing ''drawing-7'' (1::nat), SubscribeDrawing ''drawing-7'' 2,
           UnsubscribeDrawing ''drawing-7'', DrawingUnlocked ''drawing-7''] websocketClient = Inr s
     \<and> subscriptions s ''drawing-7'' = None
     \<and> filter (\<lambda>e. case e of Invoke h ev \<Rightarrow> True | _ \<Rightarrow> False) (trace s) = []"
proof -
  from unsubscribeDrawing_removes_all_handlers
         [where D = "''drawing-7''" and ?H1.0 = "1::nat" and s = websocketClient and ?H2.0 = 2
            and U = "''alice''" and t = websocketClient and throws = "\<lambda>h ev. True"]
  obtain s1 s2 where a: "subscribeDrawing ''drawing-7'' (1::nat) websocketClient = Inr s1"
    and b: "subscribeDrawing ''drawing-7'' 2 s1 = Inr s2"
    and c: "subscriptions (unsubscribeDrawing ''drawing-7'' s2) ''drawing-7'' = None"
    and d: "on_drawing_unlocked (\<lambda>h ev. True) ''drawing-7'' (unsubscribeDrawing ''drawing-7'' s2)
              = Inr (unsubscribeDrawing ''drawing-7'' s2)"
    by blast
  from a b d have r: "run (\<lambda>h ev. True)
          [SubscribeDrawing ''drawing-7'' (1::nat), SubscribeDrawing ''drawing-7'' 2,
           UnsubscribeDrawing ''drawing-7'', DrawingUnlocked ''drawing-7''] websocketClient
         = Inr (unsubscribeDrawing ''drawing-7'' s2)"
    by (simp add: report_uncaught_def)
  from a b have "filter (\<lambda>e. case e of Invoke h ev \<Rightarrow> True | _ \<Rightarrow> False)
                   (trace (unsubscribeDrawing ''drawing-7'' s2)) = []"
    by (auto simp: client_eval)
  with r c show ?thesis by blast
qed

text \<open>
  C3. The handler calls that a \<open>drawing_locked\<close> or \<open>drawing_unlocked\<close> message for drawing
  id \<open>d\<close> adds to the trace, whether the listener returns or a handler throws, are calls
  of handlers registered under \<open>d\<close>, with an event whose \<open>drawing_id\<close> is \<open>d\<close>. Over a whole
  run from the initial client, every handler call in the trace is for a drawing id that
  this handler was subscribed to in the run.
\<close>

theorem handlers_invoked_only_for_their_drawing:
  fixes s :: "'h WebSocketClient" and acts :: "'h action list"
  shows "(\<forall>h ev. Invoke h ev \<in> set (drop (length (trace s))
                     (trace (state_of (on_drawing_locked throws d u s)))) \<longrightarrow>
       drawing_id ev = d \<and> (\<exists>hs. subscriptions s d = Some hs \<and> h \<in> set hs))
   \<and> (\<forall>h ev. Invoke h ev \<in> set (drop (length (trace s))
                     (trace (state_of (on_drawing_unlocked throws d s)))) \<longrightarrow>
       drawing_id ev = d \<and> (\<exists>hs. subscriptions s d = Some hs \<and> h \<in> set hs))
   \<and> (\<exists>s'. run throws acts websocketClient = Inr s' \<and>
         (\<forall>h ev. Invoke h ev \<in> set (trace s') \<longrightarrow>
            SubscribeDrawing (drawing_id ev) h \<in> set acts))"
proof (intro conjI)
  show "\<forall>h ev. Invoke h ev \<in> set (drop (length (trace s))
                     (trace (state_of (on_drawing_locked throws d u s)))) \<longrightarrow>
       drawing_id ev = d \<and> (\<exists>hs. subscriptions s d = Some hs \<and> h \<in> set hs)"
    using new_invocations_locked [of _ _ s throws d u] by fastforce
  show "\<forall>h ev. Invoke h ev \<in> set (drop (length (trace s))
                     (trace (state_of (on_drawing_unlocked throws d s)))) \<longrightarrow>
       drawing_id ev = d \<and> (\<exists>hs. subscriptions s d = Some hs \<and> h \<in> set hs)"
    using new_invocations_unlocked [of _ _ s throws d] by fastforce
  obtain s' where s': "run throws acts (websocketClient :: 'h WebSocketClient) = Inr s'"
    using run_total by blast
  from run_registered_in [OF websocketClient_registered_in s']
  have "\<forall>h ev. Invoke h ev \<in> set (trace s') \<longrightarrow> SubscribeDrawing (drawing_id ev) h \<in> set acts"
    by (auto simp: registered_in_def subscribed_by_def)
  with s' show "\<exists>s'. run throws acts (websocketClient :: 'h WebSocketClient) = Inr s' \<and>
         (\<forall>h ev. Invoke h ev \<in> set (trace s') \<longrightarrow>
            SubscribeDrawing (drawing_id ev) h \<in> set acts)" by blast
qed

theorem handlers_invoked_only_for_their_drawing_witness:
  "\<exists>s'. run (\<lambda>h ev. h = 1)
           [SubscribeDrawing ''drawing-42'' (1::nat), SubscribeDrawing ''drawing-7'' 2,
            DrawingLocked ''drawing-42'' ''alice''] websocketClient = Inr s'
     \<and> Invoke 1 \<lparr>type = locked, drawing_id = ''drawing-42'', locked_by = Some ''alice''\<rparr>
         \<in> set (trace s')
     \<and> SubscribeDrawing ''drawing-42'' 1
         \<in> set [SubscribeDrawing ''drawing-42'' (1::nat), SubscribeDrawing ''drawing-7'' 2,
                 DrawingLocked ''drawing-42'' ''alice'']"
proof -
  let ?acts = "[SubscribeDrawing ''drawing-42'' (1::nat), SubscribeDrawing ''drawing-7'' 2,
             DrawingLocked ''drawing-42'' ''alice'']"
  let ?ev = "\<lparr>type = locked, drawing_id = ''drawing-42'', locked_by = Some ''alice''\<rparr>"
  have "\<exists>s'. run (\<lambda>h ev. h = 1) ?acts websocketClient = Inr s' \<and> Invoke 1 ?ev \<in> set (trace s')"
    by (simp add: client_eval)
  then obtain s' where r: "run (\<lambda>h ev. h = 1) ?acts websocketClient = Inr s'"
    and i: "Invoke 1 ?ev \<in> set (trace s')"
    by blast
  from handlers_invoked_only_for_their_drawing
         [where s = websocketClient and d = "''x''" and u = "''y''" and acts = ?acts
            and throws = "\<lambda>h ev. h = 1"] r
  have "\<forall>h ev. Invoke h ev \<in> set (trace s') \<longrightarrow>
            SubscribeDrawing (drawing_id ev) h \<in> set ?acts"
    by simp
  with i have "SubscribeDrawing (drawing_id ?ev) 1 \<in> set ?acts" by blast
  then have "SubscribeDrawing ''drawing-42'' 1 \<in> set ?acts" by simp
  with r i show ?thesis by blast
qed

text \<open>
  C4. When the registry has no entry for drawing id \<open>D\<close>, the \<open>drawing_locked\<close> and the
  \<open>drawing_unlocked\<close> listener return and leave the client as it is: no handler is called,
  nothing is stored, and no exception is raised, whatever the handlers would do.
\<close>

theorem dispatch_without_handlers_is_dropped:
  assumes "subscriptions s D = None"
  shows "on_drawing_locked throws D U s = Inr s \<and> on_drawing_unlocked throws D s = Inr s
         \<and> step throws (DrawingLocked D U) s = Inr s
         \<and> step throws (DrawingUnlocked D) s = Inr s"
  using assms
  by (simp add: on_drawing_locked_None on_drawing_unlocked_None report_uncaught_def)

theorem dispatch_without_handlers_is_dropped_witness:
  "subscriptions (websocketClient :: nat WebSocketClient) ''drawing-7'' = None
   \<and> on_drawing_locked (\<lambda>h ev. True) ''drawing-7'' ''alice'' (websocketClient :: nat WebSocketClient)
       = Inr websocketClient
   \<and> on_drawing_unlocked (\<lambda>h ev. True) ''drawing-7'' (websocketClient :: nat WebSocketClient)
       = Inr websocketClient"
proof -
  have h: "subscriptions (websocketClient :: nat WebSocketClient) ''drawing-7'' = None"
    by (simp add: websocketClient_def)
  from dispatch_without_handlers_is_dropped
         [OF h, where U = "''alice''" and throws = "\<lambda>h ev. True"] h
  show ?thesis by simp
qed

section \<open>Subscribing and unsubscribing\<close>

text \<open>
  C5. \<open>subscribeDrawing D H\<close> never fails. It appends \<open>H\<close> to the list registered for \<open>D\<close>
  (the empty list when there is no entry). On a client that is not connected it first
  runs \<open>connect\<close>, which opens a new transport handle and installs the listeners, and
  only then emits \<open>subscribe_drawing\<close> with \<open>{drawing_id: D}\<close> on that handle; on a connected
  client it emits the message on the existing handle.
\<close>

theorem subscribeDrawing_connects_before_emit:
  fixes s :: "'h WebSocketClient"
  shows "\<exists>s'. subscribeDrawing D H s = Inr s' \<and>
           subscriptions s' =
             (subscriptions s)(D \<mapsto> (case subscriptions s D of None \<Rightarrow> [] | Some hs \<Rightarrow> hs) @ [H]) \<and>
           (\<not> isConnected s \<longrightarrow>
              trace (connect s) = trace s @ Io (opened s) #
                map (On (opened s))
                  [''connect'', ''disconnect'', ''drawing_locked'', ''drawing_unlocked'', ''error'']
              \<and> trace s' = trace (connect s) @ [Emit (opened s) ''subscribe_drawing'' D]
              \<and> socket s' = Some \<lparr>sid = opened s, connected = False\<rparr>
              \<and> opened s' = Suc (opened s)) \<and>
           (isConnected s \<longrightarrow>
              (\<exists>k. socket s = Some k \<and>
                   trace s' = trace s @ [Emit (sid k) ''subscribe_drawing'' D])
              \<and> socket s' = socket s \<and> opened s' = opened s)"
proof (cases "isConnected s")
  case True
  then obtain k where k: "socket s = Some k" "connected k"
    by (auto simp: isConnected_def split: option.splits)
  with True show ?thesis
    by (simp add: subscribeDrawing_connected registry_list_def)
next
  case False
  moreover from False have "trace (connect s) = trace s @ Io (opened s) #
      map (On (opened s))
        [''connect'', ''disconnect'', ''drawing_locked'', ''drawing_unlocked'', ''error'']"
    and "socket (connect s) = Some \<lparr>sid = opened s, connected = False\<rparr>"
    and "opened (connect s) = Suc (opened s)"
    by (simp_all add: connect_def isConnected_def)
  ultimately show ?thesis
    by (simp add: subscribeDrawing_disconnected registry_list_def)
qed

theorem subscribeDrawing_connects_before_emit_witness:
  "\<not> isConnected (websocketClient :: nat WebSocketClient)
   \<and> (\<exists>s'. subscribeDrawing ''drawing-42'' (1::nat) websocketClient = Inr s'
        \<and> subscriptions s' ''drawing-42'' = Some [1]
        \<and> trace s' =
            [Io 0, On 0 ''connect'', On 0 ''disconnect'', On 0 ''drawing_locked'',
             On 0 ''drawing_unlocked'', On 0 ''error'',
             Emit 0 ''subscribe_drawing'' ''drawing-42''])
   \<and> (\<exists>s s'. run (\<lambda>h ev. False) [Connect, TransportConnect 0] (websocketClient :: nat WebSocketClient) = Inr s
        \<and> isConnected s
        \<and> subscribeDrawing ''drawing-42'' (1::nat) s = Inr s'
        \<and> trace s' = trace s @ [Emit 0 ''subscribe_drawing'' ''drawing-42''])"
proof (intro conjI)
  show d: "\<not> isConnected (websocketClient :: nat WebSocketClient)"
    by (simp add: isConnected_def websocketClient_def)
  from subscribeDrawing_connects_before_emit [of "''drawing-42''" "1::nat" websocketClient] d
  show "\<exists>s'. subscribeDrawing ''drawing-42'' (1::nat) websocketClient = Inr s'
        \<and> subscriptions s' ''drawing-42'' = Some [1]
        \<and> trace s' =
            [Io 0, On 0 ''connect'', On 0 ''disconnect'', On 0 ''drawing_locked'',
             On 0 ''drawing_unlocked'', On 0 ''error'',
             Emit 0 ''subscribe_drawing'' ''drawing-42'']"
    by (auto simp: websocketClient_def)
  define s :: "nat WebSocketClient" where
    "s = on_connect (set_connected 0 True (connect websocketClient))"
  have r: "run (\<lambda>h ev. False) [Connect, TransportConnect 0] (websocketClient :: nat WebSocketClient) = Inr s"
    by (simp add: s_def)
  have c: "isConnected s" and k: "socket s = Some \<lparr>sid = 0, connected = True\<rparr>"
    by (simp_all add: s_def client_eval)
  from subscribeDrawing_connects_before_emit [of "''drawing-42''" "1::nat" s] c k
  obtain s' where "subscribeDrawing ''drawing-42'' (1::nat) s = Inr s'"
    and "trace s' = trace s @ [Emit 0 ''subscribe_drawing'' ''drawing-42'']"
    by auto
  with r c show "\<exists>s s'. run (\<lambda>h ev. False) [Connect, TransportConnect 0] (websocketClient :: nat WebSocketClient) = Inr s
        \<and> isConnected s
        \<and> subscribeDrawing ''drawing-42'' (1::nat) s = Inr s'
        \<and> trace s' = trace s @ [Emit 0 ''subscribe_drawing'' ''drawing-42'']"
    by blast
qed

text \<open>
  C7, as amended. When the registry has no entry for drawing id \<open>D\<close>,
  \<open>unsubscribeDrawing D\<close> does not fail and leaves the registry and the transport handle
  as they are; with a transport handle present it still emits \<open>unsubscribe_drawing\<close> with
  \<open>{drawing_id: D}\<close>, and only without a handle is the call without any effect.
\<close>

theorem unsubscribeDrawing_absent_id:
  fixes s :: "'h WebSocketClient"
  assumes "subscriptions s D = None"
  shows "subscriptions (unsubscribeDrawing D s) = subscriptions s
         \<and> socket (unsubscribeDrawing D s) = socket s
         \<and> opened (unsubscribeDrawing D s) = opened s
         \<and> step throws (UnsubscribeDrawing D) s = Inr (unsubscribeDrawing D s)
         \<and> trace (unsubscribeDrawing D s) =
             trace s @ (case socket s of
                          None \<Rightarrow> []
                        | Some k \<Rightarrow> [Emit (sid k) ''unsubscribe_drawing'' D])
         \<and> (socket s = None \<longrightarrow> unsubscribeDrawing D s = s)"
proof -
  from assms have "(subscriptions s)(D := None) = subscriptions s"
    by (simp add: fun_upd_idem)
  then show ?thesis
    by (simp add: unsubscribeDrawing_def Let_def split: option.splits)
qed

theorem unsubscribeDrawing_absent_id_witness:
  "subscriptions (websocketClient :: nat WebSocketClient) ''drawing-42'' = None
   \<and> socket (websocketClient :: nat WebSocketClient) = None
   \<and> unsubscribeDrawing ''drawing-42'' (websocketClient :: nat WebSocketClient) = websocketClient
   \<and> subscriptions (connect (websocketClient :: nat WebSocketClient)) ''drawing-42'' = None
   \<and> subscriptions (unsubscribeDrawing ''drawing-42'' (connect (websocketClient :: nat WebSocketClient)))
       = subscriptions (connect (websocketClient :: nat WebSocketClient))"
proof -
  have a: "subscriptions (websocketClient :: nat WebSocketClient) ''drawing-42'' = None"
    and n: "socket (websocketClient :: nat WebSocketClient) = None"
    by (simp_all add: websocketClient_def)
  have b: "subscriptions (connect (websocketClient :: nat WebSocketClient)) ''drawing-42'' = None"
    by (simp add: connect_def websocketClient_def)
  from unsubscribeDrawing_absent_id [OF a] unsubscribeDrawing_absent_id [OF b] a b n
  show ?thesis by blast
qed

text \<open>
  C7, as stated, fails: on the client just after \<open>connect\<close> nothing is subscribed to
  \<open>drawing-42\<close>, yet \<open>unsubscribeDrawing\<close> sends an \<open>unsubscribe_drawing\<close> message for it.
\<close>

theorem unsubscribeDrawing_absent_id_counterexample:
  "subscriptions (connect (websocketClient :: nat WebSocketClient)) ''drawing-42'' = None
   \<and> trace (unsubscribeDrawing ''drawing-42'' (connect (websocketClient :: nat WebSocketClient))) =
       trace (connect (websocketClient :: nat WebSocketClient)) @
       [Emit 0 ''unsubscribe_drawing'' ''drawing-42'']
   \<and> unsubscribeDrawing ''drawing-42'' (connect (websocketClient :: nat WebSocketClient))
       \<noteq> connect websocketClient"
proof (intro conjI)
  show "subscriptions (connect (websocketClient :: nat WebSocketClient)) ''drawing-42'' = None"
    by (simp add: connect_def websocketClient_def)
  show t: "trace (unsubscribeDrawing ''drawing-42'' (connect (websocketClient :: nat WebSocketClient))) =
       trace (connect (websocketClient :: nat WebSocketClient)) @
       [Emit 0 ''unsubscribe_drawing'' ''drawing-42'']"
    by (simp add: unsubscribeDrawing_def connect_def websocketClient_def Let_def)
  show "unsubscribeDrawing ''drawing-42'' (connect (websocketClient :: nat WebSocketClient))
       \<noteq> connect websocketClient"
  proof
    assume "unsubscribeDrawing ''drawing-42'' (connect (websocketClient :: nat WebSocketClient))
       = connect websocketClient"
    then have "trace (unsubscribeDrawing ''drawing-42'' (connect (websocketClient :: nat WebSocketClient)))
       = trace (connect (websocketClient :: nat WebSocketClient))"
      by simp
    with t show False by simp
  qed
qed




section \<open>Connection lifecycle\<close>

text \<open>
  C6. In every state the client can reach, \<open>disconnect\<close> leaves it with no transport
  handle, \<open>isConnected\<close> false and an empty registry, so a following \<open>subscribeDrawing D H\<close>
  yields the registry with the single entry \<open>D \<mapsto> [H]\<close>. On a client without a handle
  \<open>disconnect\<close> changes nothing, and a second \<open>disconnect\<close> changes nothing after a first.
\<close>

theorem disconnect_clears_registry:
  fixes acts :: "'h action list" and t :: "'h WebSocketClient"
  shows "(\<exists>s. run throws acts websocketClient = Inr s \<and>
            \<not> isConnected (disconnect s) \<and> socket (disconnect s) = None \<and>
            subscriptions (disconnect s) = Map.empty \<and>
            (\<exists>s'. subscribeDrawing D H (disconnect s) = Inr s' \<and>
                  subscriptions s' = [D \<mapsto> [H]]))
         \<and> (socket t = None \<longrightarrow> disconnect t = t \<and> step throws Disconnect t = Inr t)
         \<and> disconnect (disconnect t) = disconnect t"
proof (intro conjI)
  obtain s where s: "run throws acts (websocketClient :: 'h WebSocketClient) = Inr s"
    using run_total by blast
  have "handle_guards_registry s"
    using websocketClient_handle_guards_registry s by (rule run_handle_guards_registry)
  then have e: "subscriptions (disconnect s) = Map.empty"
    by (auto simp: handle_guards_registry_def disconnect_def Let_def split: option.splits)
  have n: "socket (disconnect s) = None"
    by (simp add: disconnect_def Let_def split: option.splits)
  then have c: "\<not> isConnected (disconnect s)"
    by (simp add: isConnected_def)
  from subscribeDrawing_subscriptions [of D H "disconnect s"] e
  have "\<exists>s'. subscribeDrawing D H (disconnect s) = Inr s' \<and> subscriptions s' = [D \<mapsto> [H]]"
    by (auto simp: registry_list_def)
  with s e n c
  show "\<exists>s. run throws acts (websocketClient :: 'h WebSocketClient) = Inr s \<and>
            \<not> isConnected (disconnect s) \<and> socket (disconnect s) = None \<and>
            subscriptions (disconnect s) = Map.empty \<and>
            (\<exists>s'. subscribeDrawing D H (disconnect s) = Inr s' \<and>
                  subscriptions s' = [D \<mapsto> [H]])"
    by blast
  show "socket t = None \<longrightarrow> disconnect t = t \<and> step throws Disconnect t = Inr t"
    by (simp add: disconnect_def)
  show "disconnect (disconnect t) = disconnect t"
    by (simp add: disconnect_def Let_def split: option.splits)
qed

theorem disconnect_clears_registry_witness:
  "(\<exists>s. run (\<lambda>h ev. False) [SubscribeDrawing ''drawing-42'' (1::nat), TransportConnect 0]
           websocketClient = Inr s
      \<and> isConnected s \<and> subscriptions s ''drawing-42'' = Some [1]
      \<and> \<not> isConnected (disconnect s) \<and> subscriptions (disconnect s) = Map.empty
      \<and> (\<exists>s'. subscribeDrawing ''drawing-7'' 2 (disconnect s) = Inr s'
             \<and> subscriptions s' = [''drawing-7'' \<mapsto> [2]]))
   \<and> socket (websocketClient :: nat WebSocketClient) = None
   \<and> disconnect (websocketClient :: nat WebSocketClient) = websocketClient"
proof (intro conjI)
  let ?acts = "[SubscribeDrawing ''drawing-42'' (1::nat), TransportConnect 0]"
  let ?th = "\<lambda>(h::nat) (ev::DrawingEventData). False"
  from disconnect_clears_registry
         [where throws = ?th and acts = ?acts and D = "''drawing-7''" and H = 2
            and t = websocketClient]
  obtain s where r: "run ?th ?acts websocketClient = Inr s"
    and p: "\<not> isConnected (disconnect s)" "subscriptions (disconnect s) = Map.empty"
      "\<exists>s'. subscribeDrawing ''drawing-7'' 2 (disconnect s) = Inr s'
             \<and> subscriptions s' = [''drawing-7'' \<mapsto> [2]]"
    by blast
  from r have "isConnected s" and "subscriptions s ''drawing-42'' = Some [1]"
    by (auto simp: client_eval)
  with r p show "\<exists>s. run ?th ?acts websocketClient = Inr s
      \<and> isConnected s \<and> subscriptions s ''drawing-42'' = Some [1]
      \<and> \<not> isConnected (disconnect s) \<and> subscriptions (disconnect s) = Map.empty
      \<and> (\<exists>s'. subscribeDrawing ''drawing-7'' 2 (disconnect s) = Inr s'
             \<and> subscriptions s' = [''drawing-7'' \<mapsto> [2]])"
    by blast
  show n: "socket (websocketClient :: nat WebSocketClient) = None"
    by (simp add: websocketClient_def)
  from disconnect_clears_registry
         [where throws = "\<lambda>(h::nat) (ev::DrawingEventData). False" and acts = "[]"
            and D = "''drawing-7''" and H = "2::nat" and t = websocketClient] n
  show "disconnect (websocketClient :: nat WebSocketClient) = websocketClient"
    by blast
qed

text \<open>
  C8. \<open>connect\<close> on a connected client returns at once: no transport handle is created,
  the handle, the registry and the trace stay as they are, and \<open>isConnected\<close> stays true.
\<close>

theorem connect_when_connected_is_noop:
  assumes "isConnected s"
  shows "connect s = s \<and> step throws Connect s = Inr s \<and> opened (connect s) = opened s
         \<and> socket (connect s) = socket s \<and> subscriptions (connect s) = subscriptions s
         \<and> trace (connect s) = trace s \<and> isConnected (connect s)"
proof -
  from assms have "connect s = s"
    by (simp add: connect_def isConnected_def)
  with assms show ?thesis by simp
qed

theorem connect_when_connected_is_noop_witness:
  "\<exists>s. run (\<lambda>h ev. False) [Connect, TransportConnect 0] (websocketClient :: nat WebSocketClient) = Inr s
     \<and> isConnected s \<and> connect s = s \<and> opened s = 1"
proof -
  define s :: "nat WebSocketClient" where
    "s = on_connect (set_connected 0 True (connect websocketClient))"
  have r: "run (\<lambda>h ev. False) [Connect, TransportConnect 0] (websocketClient :: nat WebSocketClient) = Inr s"
    by (simp add: s_def)
  have c: "isConnected s"
    by (simp add: s_def isConnected_def on_connect_def set_connected_def connect_def
          websocketClient_def)
  have o: "opened s = 1"
    by (simp add: s_def on_connect_def set_connected_def connect_def websocketClient_def)
  from connect_when_connected_is_noop [OF c] r c o show ?thesis by blast
qed

text \<open>
  C10. In every state reached from the initial client by method calls and listener
  events, a client without a transport handle has an empty registry; put the other way
  round, a non-empty registry comes with a handle.
\<close>

theorem null_handle_implies_empty_registry:
  fixes acts :: "'h action list"
  shows "\<exists>s. run throws acts (websocketClient :: 'h WebSocketClient) = Inr s \<and>
           (socket s = None \<longrightarrow> subscriptions s = Map.empty) \<and>
           (subscriptions s \<noteq> Map.empty \<longrightarrow> socket s \<noteq> None)"
proof -
  obtain s where s: "run throws acts (websocketClient :: 'h WebSocketClient) = Inr s"
    using run_total by blast
  have "handle_guards_registry s"
    using websocketClient_handle_guards_registry s by (rule run_handle_guards_registry)
  with s show ?thesis
    by (auto simp: handle_guards_registry_def)
qed

theorem null_handle_implies_empty_registry_witness:
  "(\<exists>s. run (\<lambda>h ev. True) [SubscribeDrawing ''drawing-42'' (1::nat), UnsubscribeDrawing ''drawing-7'', Disconnect]
           websocketClient = Inr s
      \<and> socket s = None \<and> subscriptions s = Map.empty)
   \<and> (\<exists>s. run (\<lambda>h ev. True) [Connect, SubscribeDrawing ''drawing-42'' (1::nat)] websocketClient = Inr s
      \<and> subscriptions s \<noteq> Map.empty \<and> socket s \<noteq> None)"
proof (intro conjI)
  let ?a = "[SubscribeDrawing ''drawing-42'' (1::nat), UnsubscribeDrawing ''drawing-7'', Disconnect]"
  have "\<exists>s. run (\<lambda>h ev. True) ?a websocketClient = Inr s \<and> socket s = None"
    by (simp add: client_eval)
  then obtain s where r: "run (\<lambda>h ev. True) ?a websocketClient = Inr s" and n: "socket s = None"
    by blast
  from null_handle_implies_empty_registry [where acts = ?a and throws = "\<lambda>h ev. True"] r
  have "socket s = None \<longrightarrow> subscriptions s = Map.empty"
    by simp
  with r n show "\<exists>s. run (\<lambda>h ev. True) ?a websocketClient = Inr s \<and> socket s = None \<and> subscriptions s = Map.empty"
    by blast
next
  let ?b = "[Connect, SubscribeDrawing ''drawing-42'' (1::nat)]"
  have "\<exists>s. run (\<lambda>h ev. True) ?b websocketClient = Inr s \<and> subscriptions s ''drawing-42'' \<noteq> None"
    by (simp add: client_eval)
  then obtain s where r: "run (\<lambda>h ev. True) ?b websocketClient = Inr s"
    and "subscriptions s ''drawing-42'' \<noteq> None"
    by blast
  then have ne: "subscriptions s \<noteq> Map.empty" by auto
  from null_handle_implies_empty_registry [where acts = ?b and throws = "\<lambda>h ev. True"] r
  have "subscriptions s \<noteq> Map.empty \<longrightarrow> socket s \<noteq> None"
    by simp
  with r ne show "\<exists>s. run (\<lambda>h ev. True) ?b websocketClient = Inr s \<and> subscriptions s \<noteq> Map.empty \<and> socket s \<noteq> None"
    by blast
qed

end
